theory Spec2Isabelle
  imports Main
begin

section \<open>Data model (models/Device.js, models/Alert.js)\<close>

datatype status = Online | Offline | Warning | Unknown

datatype level = Disaster | WarningLevel | Information

datatype device_type = Server | Database | Switch | Router | Pc | Other

text \<open>
  A row of the \<open>devices\<close> table, and equally the in-memory model instance that
  \<open>checkDevice\<close> receives. \<open>None\<close> stands for JavaScript's \<open>null\<close>.
\<close>

record device =
  dev_id :: nat
  name :: string
  ip :: string
  dev_type :: device_type
  status :: status
  responseTime :: "int option"
  lastCheck :: "nat option"
  checkUrl :: "string option"
  port :: "nat option"
  description :: "string option"
  isActive :: bool
  consecutiveFailures :: int
  lastError :: "string option"

record alert =
  alert_id :: nat
  deviceId :: nat
  alert_device :: string
  message :: string
  level :: level
  timestamp :: nat
  acknowledged :: bool
  resolved :: bool
  resolvedAt :: "nat option"
  emailSent :: bool

section \<open>The environment of a check\<close>

text \<open>
  What the \<open>ping\<close> library and \<open>axios\<close> hand back. A reply of \<open>ping\<close> carries
  \<open>alive\<close> and the (already rounded) round-trip time; a thrown exception carries its
  \<open>message\<close>, which is \<open>None\<close> when the thrown value has none. An HTTP exchange either
  produces a response (status code, elapsed milliseconds) or fails in transport with an
  error \<open>code\<close> and a \<open>message\<close>.
\<close>

datatype ping_outcome = PingReply bool int | PingThrows "string option"

datatype http_outcome = HttpReplied nat int | HttpFailed string "string option"

text \<open>The collaborator calls of one check that may fail (reject their promise).\<close>

datatype io_op =
    SaveDevice nat
  | CreateAlert nat
  | SendMail nat
  | UpdateAlert nat
  | FindAlerts nat
  | ResolveAlert nat
  | FindDevices
  | FindDevice
  | CreateDevice
  | UpdateDevice nat
  | DestroyDevice nat

record env =
  ping_net :: "string \<Rightarrow> ping_outcome"
  http_net :: "string \<Rightarrow> http_outcome"
  now :: nat
  faults :: "io_op \<Rightarrow> bool"

datatype error = ProbeError | DbError io_op | ValidationError

text \<open>
  The persistent store shared by the services: the two tables, the auto-increment
  counter of \<open>alerts\<close>, the state of the e-mail service and of the socket server, and
  the logs of what was handed to both.
\<close>

record world =
  devices :: "device list"
  alerts :: "alert list"
  next_alert_id :: nat
  email_initialized :: bool
  email_log :: "(nat \<times> nat) list"
  ws_io :: bool
  ws_log :: "(nat \<times> string \<times> string \<times> level \<times> nat) list"

section \<open>Strings of numbers, truthiness\<close>

text \<open>The decimal text of a number, as a template literal prints it.\<close>

definition digit_char :: "nat \<Rightarrow> char" where
  "digit_char k = char_of (k + 48)"

fun string_of_nat :: "nat \<Rightarrow> string" where
  "string_of_nat n =
     (if 10 \<le> n then string_of_nat (n div 10) @ [digit_char (n mod 10)] else [digit_char n])"

declare string_of_nat.simps [simp del]

definition string_of_int :: "int \<Rightarrow> string" where
  "string_of_int i =
     (if i < 0 then CHR ''-'' # string_of_nat (nat (- i)) else string_of_nat (nat i))"

text \<open>A string-valued field is truthy when it is neither \<open>null\<close> nor empty.\<close>

definition truthy :: "string option \<Rightarrow> bool" where
  "truthy s = (case s of None \<Rightarrow> False | Some t \<Rightarrow> t \<noteq> [])"

definition truthy_port :: "nat option \<Rightarrow> bool" where
  "truthy_port p = (case p of None \<Rightarrow> False | Some n \<Rightarrow> n \<noteq> 0)"

section \<open>Probe executor (services/monitoringService.js)\<close>

record probe_result =
  success :: bool
  pr_responseTime :: "int option"
  statusCode :: "nat option"
  pr_error :: "string option"

definition checkPing :: "env \<Rightarrow> string \<Rightarrow> probe_result" where
  "checkPing e host =
     (case ping_net e host of
        PingReply alive t \<Rightarrow>
          \<lparr> success = alive,
            pr_responseTime = (if alive then Some t else None),
            statusCode = None,
            pr_error = (if alive then None else Some ''Host unreachable'') \<rparr>
      | PingThrows msg \<Rightarrow>
          \<lparr> success = False, pr_responseTime = None, statusCode = None, pr_error = msg \<rparr>)"

definition startsWith :: "string \<Rightarrow> string \<Rightarrow> bool" where
  "startsWith s p = (take (length p) s = p)"

definition fullUrl :: "string \<Rightarrow> nat option \<Rightarrow> string" where
  "fullUrl url p =
     (let u = (if \<not> startsWith url ''http'' then ''http://'' @ url else url)
      in if truthy_port p then u @ '':'' @ string_of_nat (the p) else u)"

text \<open>
  \<open>validateStatus\<close> accepts every status below 500; for the others \<open>axios\<close> rejects
  with the message below, and the \<open>catch\<close> branch runs as for a transport failure.
\<close>

definition http_catch :: "string \<Rightarrow> string option \<Rightarrow> nat option \<Rightarrow> probe_result" where
  "http_catch code msg st =
     \<lparr> success = False, pr_responseTime = None, statusCode = st,
       pr_error =
         (if code = ''ECONNREFUSED'' then Some ''Connection refused''
          else if code = ''ETIMEDOUT'' then Some ''Connection timeout''
          else msg) \<rparr>"

definition checkHttp :: "env \<Rightarrow> string \<Rightarrow> nat option \<Rightarrow> probe_result" where
  "checkHttp e url p =
     (case http_net e (fullUrl url p) of
        HttpReplied st ms \<Rightarrow>
          if st < 500 then
            \<lparr> success = (st < 400), pr_responseTime = Some ms, statusCode = Some st,
              pr_error = (if st \<ge> 400 then Some (''HTTP '' @ string_of_nat st) else None) \<rparr>
          else
            http_catch ''ERR_BAD_RESPONSE''
              (Some (''Request failed with status code '' @ string_of_nat st)) (Some st)
      | HttpFailed code msg \<Rightarrow> http_catch code msg None)"

definition probe :: "env \<Rightarrow> device \<Rightarrow> probe_result" where
  "probe e d =
     (if truthy (checkUrl d) then checkHttp e (the (checkUrl d)) (port d)
      else checkPing e (ip d))"

section \<open>Status evaluator\<close>

text \<open>Lines 93 to 102 of \<open>checkDevice\<close>; \<open>null > 1000\<close> is false.\<close>

definition slow :: "int option \<Rightarrow> bool" where
  "slow rt = (case rt of None \<Rightarrow> False | Some t \<Rightarrow> t > 1000)"

definition evaluate :: "probe_result \<Rightarrow> status" where
  "evaluate r =
     (let s = (if success r then Online else if truthy (pr_error r) then Offline else Unknown)
      in if s = Online \<and> slow (pr_responseTime r) then Warning else s)"

definition save_device :: "device \<Rightarrow> device list \<Rightarrow> device list" where
  "save_device d rows = map (\<lambda>r. if dev_id r = dev_id d then d else r) rows"

text \<open>
  \<open>Device.prototype.updateStatus\<close>: the assignments to the instance
  (\<open>set_status\<close>), then the save. A failing save leaves the changed instance and
  the old row.
\<close>

definition set_status :: "env \<Rightarrow> status \<Rightarrow> int option \<Rightarrow> string option \<Rightarrow> device \<Rightarrow> device" where
  "set_status e s rt err d =
     (let d1 = d\<lparr> status := s, responseTime := rt, lastCheck := Some (now e) \<rparr>
      in if s = Offline \<or> s = Warning
         then d1\<lparr> consecutiveFailures := consecutiveFailures d1 + 1, lastError := err \<rparr>
         else d1\<lparr> consecutiveFailures := 0, lastError := None \<rparr>)"

definition updateStatus ::
  "env \<Rightarrow> status \<Rightarrow> int option \<Rightarrow> string option \<Rightarrow> device \<Rightarrow> world
     \<Rightarrow> (error + unit) \<times> device \<times> world" where
  "updateStatus e s rt err d w =
     (let d2 = set_status e s rt err d
      in if faults e (SaveDevice (dev_id d)) then (Inl (DbError (SaveDevice (dev_id d))), d2, w)
         else (Inr (), d2, w\<lparr> devices := save_device d2 (devices w) \<rparr>))"

section \<open>Alert manager\<close>

definition set_emailSent :: "nat \<Rightarrow> alert list \<Rightarrow> alert list" where
  "set_emailSent i rows = map (\<lambda>a. if alert_id a = i then a\<lparr> emailSent := True \<rparr> else a) rows"

text \<open>\<open>emailService.sendAlertEmail\<close> never throws: every failure is the result false.\<close>

definition sendAlertEmail :: "env \<Rightarrow> alert \<Rightarrow> device \<Rightarrow> world \<Rightarrow> bool \<times> world" where
  "sendAlertEmail e a d w =
     (if \<not> email_initialized w then (False, w)
      else if faults e (SendMail (alert_id a)) then (False, w)
      else
        (let w1 = w\<lparr> email_log := email_log w @ [(alert_id a, dev_id d)] \<rparr>
         in if faults e (UpdateAlert (alert_id a)) then (False, w1)
            else (True, w1\<lparr> alerts := set_emailSent (alert_id a) (alerts w1) \<rparr>)))"

definition new_alert :: "env \<Rightarrow> nat \<Rightarrow> device \<Rightarrow> level \<Rightarrow> string \<Rightarrow> alert" where
  "new_alert e i d l m =
     \<lparr> alert_id = i, deviceId = dev_id d, alert_device = name d, message = m, level = l,
       timestamp = now e, acknowledged = False, resolved = False, resolvedAt = None,
       emailSent = False \<rparr>"

text \<open>
  \<open>createAlert\<close>: \<open>Alert.create\<close> validates the message length (10 to 500) and may
  fail in the store; both are rethrown.
\<close>

definition createAlert ::
  "env \<Rightarrow> device \<Rightarrow> level \<Rightarrow> string \<Rightarrow> world \<Rightarrow> (error + alert) \<times> world" where
  "createAlert e d l m w =
     (if length m < 10 \<or> length m > 500 then (Inl ValidationError, w)
      else if faults e (CreateAlert (dev_id d)) then (Inl (DbError (CreateAlert (dev_id d))), w)
      else
        (let a = new_alert e (next_alert_id w) d l m;
             w1 = w\<lparr> alerts := alerts w @ [a], next_alert_id := next_alert_id w + 1 \<rparr>;
             w2 = (if l = Disaster \<or> l = WarningLevel then snd (sendAlertEmail e a d w1) else w1);
             w3 = (if ws_io w2
                   then w2\<lparr> ws_log := ws_log w2 @
                          [(alert_id a, alert_device a, message a, level a, timestamp a)] \<rparr>
                   else w2)
         in (Inr a, w3)))"

definition resolve_row :: "nat \<Rightarrow> nat \<Rightarrow> alert \<Rightarrow> alert" where
  "resolve_row t i a = (if alert_id a = i then a\<lparr> resolved := True, resolvedAt := Some t \<rparr> else a)"

text \<open>
  The loop of \<open>resolveDeviceAlerts\<close> over the alerts found; the first failing
  \<open>alert.resolve()\<close> leaves the loop, and the surrounding \<open>catch\<close> only logs.
\<close>

fun resolve_loop :: "env \<Rightarrow> alert list \<Rightarrow> world \<Rightarrow> world" where
  "resolve_loop e [] w = w"
| "resolve_loop e (a # as) w =
     (if faults e (ResolveAlert (alert_id a)) then w
      else resolve_loop e as (w\<lparr> alerts := map (resolve_row (now e) (alert_id a)) (alerts w) \<rparr>))"

definition resolveDeviceAlerts :: "env \<Rightarrow> nat \<Rightarrow> world \<Rightarrow> world" where
  "resolveDeviceAlerts e i w =
     (if faults e (FindAlerts i) then w
      else resolve_loop e (filter (\<lambda>a. deviceId a = i \<and> \<not> resolved a) (alerts w)) w)"

section \<open>checkDevice and checkAllDevices\<close>

record check_result =
  r_status :: status
  r_responseTime :: "int option"
  previousStatus :: status

text \<open>Lines 107 to 122: the alerts of a transition from \<open>old\<close> to \<open>s\<close>.\<close>

definition alert_step ::
  "env \<Rightarrow> device \<Rightarrow> status \<Rightarrow> status \<Rightarrow> int option \<Rightarrow> world \<Rightarrow> (error + unit) \<times> world" where
  "alert_step e d old s rt w =
     (if old = Online \<and> s = Offline then
        (case createAlert e d Disaster ''Device is unreachable'' w of
           (Inl x, w1) \<Rightarrow> (Inl x, w1)
         | (Inr a, w1) \<Rightarrow> (Inr (), w1))
      else if s = Warning \<and> old \<noteq> Warning then
        (case createAlert e d WarningLevel
                (''High response time: '' @ (case rt of None \<Rightarrow> ''null'' | Some t \<Rightarrow> string_of_int t)
                   @ ''ms'') w of
           (Inl x, w1) \<Rightarrow> (Inl x, w1)
         | (Inr a, w1) \<Rightarrow> (Inr (), w1))
      else if s = Online \<and> (old = Offline \<or> old = Warning) then
        (case createAlert e d Information ''Device is back online'' w of
           (Inl x, w1) \<Rightarrow> (Inl x, w1)
         | (Inr a, w1) \<Rightarrow> (Inr (), resolveDeviceAlerts e (dev_id d) w1))
      else (Inr (), w))"

definition checkDevice ::
  "env \<Rightarrow> device \<Rightarrow> world \<Rightarrow> (error + check_result) \<times> device \<times> world" where
  "checkDevice e d w =
     (let r = probe e d;
          s = evaluate r;
          old = status d
      in case updateStatus e s (pr_responseTime r) (pr_error r) d w of
           (Inl x, d1, w1) \<Rightarrow> (Inl x, d1, w1)
         | (Inr u, d1, w1) \<Rightarrow>
             (case alert_step e d1 old s (pr_responseTime r) w1 of
                (Inl x, w2) \<Rightarrow> (Inl x, d1, w2)
              | (Inr v, w2) \<Rightarrow>
                  (Inr \<lparr> r_status = s, r_responseTime = pr_responseTime r, previousStatus = old \<rparr>,
                   d1, w2)))"






section \<open>Broadcast hub (services/websocketService.js)\<close>

text \<open>
  A device id arrives from the client as a JSON value; the handlers test it for
  truthiness and use it as a key of a \<open>Map\<close>.
\<close>

datatype js_value = JUndefined | JNull | JNum int | JStr string

definition js_truthy :: "js_value \<Rightarrow> bool" where
  "js_truthy v =
     (case v of JUndefined \<Rightarrow> False | JNull \<Rightarrow> False | JNum n \<Rightarrow> n \<noteq> 0 | JStr t \<Rightarrow> t \<noteq> [])"

record socket =
  sock_id :: string
  userId :: nat
  username :: string
  role :: string

record client =
  socketId :: string
  c_userId :: nat
  c_username :: string
  c_role :: string
  connectedAt :: nat
  subscriptions :: "js_value list"

datatype hub_event =
    AuthSuccess string string
  | ErrorEvent string
  | DeviceSubscribed js_value
  | DeviceUnsubscribed js_value
  | DeviceUpdate js_value string nat
  | DeviceStatus string

text \<open>\<open>socket.emit\<close> reaches one socket, \<open>io.emit\<close> every connected one.\<close>

datatype emission = ToSocket string hub_event | ToAll hub_event

text \<open>
  The service: \<open>io\<close> is \<open>null\<close> until \<open>initialize\<close>, and then holds the registry of the
  socket server (socket id to its \<open>connected\<close> flag), which the server itself keeps;
  the two maps of the service; and what has been emitted so far.
\<close>

record hub =
  io :: "(string \<rightharpoonup> bool) option"
  connectedClients :: "string \<rightharpoonup> client"
  deviceSubscriptions :: "js_value \<rightharpoonup> string list"
  emitted :: "emission list"

definition new_hub :: hub where
  "new_hub = \<lparr> io = None, connectedClients = Map.empty, deviceSubscriptions = Map.empty,
               emitted = [] \<rparr>"

definition emit_to :: "socket \<Rightarrow> hub_event \<Rightarrow> hub \<Rightarrow> hub" where
  "emit_to s ev h = h\<lparr> emitted := emitted h @ [ToSocket (sock_id s) ev] \<rparr>"

definition handleConnection :: "hub \<Rightarrow> socket \<Rightarrow> nat \<Rightarrow> hub" where
  "handleConnection h s t =
     emit_to s (AuthSuccess (username s) (role s))
       (h\<lparr> connectedClients := (connectedClients h)(sock_id s \<mapsto>
              \<lparr> socketId = sock_id s, c_userId = userId s, c_username = username s,
                c_role = role s, connectedAt = t, subscriptions = [] \<rparr>) \<rparr>)"

text \<open>
  \<open>handleDeviceSubscribe\<close>. A missing entry is created empty and filled at once, since
  the empty list does not include the socket; so the map never keeps an empty one here.
\<close>

definition handleDeviceSubscribe :: "hub \<Rightarrow> socket \<Rightarrow> js_value \<Rightarrow> hub" where
  "handleDeviceSubscribe h s d =
     (if \<not> js_truthy d then emit_to s (ErrorEvent ''Device ID is required'') h
      else
        (let subs = (case deviceSubscriptions h d of None \<Rightarrow> [] | Some l \<Rightarrow> l)
         in if sock_id s \<in> set subs then h
            else
              emit_to s (DeviceSubscribed d)
                (h\<lparr> deviceSubscriptions := (deviceSubscriptions h)(d \<mapsto> subs @ [sock_id s]),
                    connectedClients :=
                      (case connectedClients h (sock_id s) of
                         None \<Rightarrow> connectedClients h
                       | Some c \<Rightarrow>
                           if d \<in> set (subscriptions c) then connectedClients h
                           else (connectedClients h)(sock_id s \<mapsto>
                                  c\<lparr> subscriptions := subscriptions c @ [d] \<rparr>)) \<rparr>)))"

text \<open>\<open>indexOf\<close> and \<open>splice(index, 1)\<close> remove the first occurrence: \<open>remove1\<close>.\<close>

definition handleDeviceUnsubscribe :: "hub \<Rightarrow> socket \<Rightarrow> js_value \<Rightarrow> hub" where
  "handleDeviceUnsubscribe h s d =
     (if \<not> js_truthy d then emit_to s (ErrorEvent ''Device ID is required'') h
      else
        (case deviceSubscriptions h d of
           None \<Rightarrow> h
         | Some subs \<Rightarrow>
             if sock_id s \<in> set subs then
               (let subs1 = remove1 (sock_id s) subs;
                    h1 = h\<lparr> deviceSubscriptions := (deviceSubscriptions h)(d \<mapsto> subs1),
                            connectedClients :=
                              (case connectedClients h (sock_id s) of
                                 None \<Rightarrow> connectedClients h
                               | Some c \<Rightarrow> (connectedClients h)(sock_id s \<mapsto>
                                    c\<lparr> subscriptions := remove1 d (subscriptions c) \<rparr>)) \<rparr>;
                    h2 = emit_to s (DeviceUnsubscribed d) h1
                in if subs1 = []
                   then h2\<lparr> deviceSubscriptions := (deviceSubscriptions h2)(d := None) \<rparr>
                   else h2)
             else h))"

text \<open>The body of the \<open>forEach\<close> of \<open>handleDisconnection\<close>, for one device id.\<close>

definition drop_subscriber ::
  "string \<Rightarrow> js_value \<Rightarrow> (js_value \<rightharpoonup> string list) \<Rightarrow> (js_value \<rightharpoonup> string list)" where
  "drop_subscriber i d idx =
     (case idx d of
        None \<Rightarrow> idx
      | Some subs \<Rightarrow>
          if i \<in> set subs then
            (let subs1 = remove1 i subs
             in if subs1 = [] then idx(d := None) else idx(d \<mapsto> subs1))
          else idx)"

definition handleDisconnection :: "hub \<Rightarrow> socket \<Rightarrow> hub" where
  "handleDisconnection h s =
     h\<lparr> deviceSubscriptions :=
          (case connectedClients h (sock_id s) of
             None \<Rightarrow> deviceSubscriptions h
           | Some c \<Rightarrow> fold (drop_subscriber (sock_id s)) (subscriptions c) (deviceSubscriptions h)),
        connectedClients := (connectedClients h)(sock_id s := None) \<rparr>"

text \<open>
  \<open>sendDeviceUpdate\<close>, at time \<open>t\<close>: nothing without a server; with an entry for the
  device, one \<open>device:update\<close> to each subscriber the server knows as connected;
  without one, a \<open>device:status\<close> to all.
\<close>

definition sendDeviceUpdate :: "hub \<Rightarrow> js_value \<Rightarrow> string \<Rightarrow> nat \<Rightarrow> hub" where
  "sendDeviceUpdate h d payload t =
     (case io h of
        None \<Rightarrow> h
      | Some sockets \<Rightarrow>
          (case deviceSubscriptions h d of
             Some subs \<Rightarrow>
               h\<lparr> emitted := emitted h @
                    map (\<lambda>i. ToSocket i (DeviceUpdate d payload t))
                      (filter (\<lambda>i. sockets i = Some True) subs) \<rparr>
           | None \<Rightarrow> h\<lparr> emitted := emitted h @ [ToAll (DeviceStatus payload)] \<rparr>))"

text \<open>What socket \<open>i\<close> receives of a list of emissions, given the server's registry.\<close>

fun delivered :: "(string \<rightharpoonup> bool) \<Rightarrow> emission list \<Rightarrow> string \<Rightarrow> hub_event list" where
  "delivered sockets [] i = []"
| "delivered sockets (ToSocket j ev # es) i =
     (if j = i then ev # delivered sockets es i else delivered sockets es i)"
| "delivered sockets (ToAll ev # es) i =
     (if sockets i = Some True then ev # delivered sockets es i else delivered sockets es i)"

text \<open>The calls the socket server makes on the service, and a run of them.\<close>

datatype hub_call =
    Connection socket nat
  | Subscribe socket js_value
  | Unsubscribe socket js_value
  | Disconnection socket

fun hub_step :: "hub \<Rightarrow> hub_call \<Rightarrow> hub" where
  "hub_step h (Connection s t) = handleConnection h s t"
| "hub_step h (Subscribe s d) = handleDeviceSubscribe h s d"
| "hub_step h (Unsubscribe s d) = handleDeviceUnsubscribe h s d"
| "hub_step h (Disconnection s) = handleDisconnection h s"

definition run_hub :: "hub_call list \<Rightarrow> hub \<Rightarrow> hub" where
  "run_hub cs h = foldl hub_step h cs"

text \<open>
  The life of a socket as the socket server drives it: connected once under a fresh
  id, its events handled only while it is connected, disconnected once. \<open>live\<close> are the
  ids connected now, \<open>gone\<close> those disconnected.
\<close>

fun lifecycle :: "string set \<Rightarrow> string set \<Rightarrow> hub_call list \<Rightarrow> bool" where
  "lifecycle live gone [] = True"
| "lifecycle live gone (Connection s t # cs) =
     (sock_id s \<notin> live \<and> sock_id s \<notin> gone \<and> lifecycle (insert (sock_id s) live) gone cs)"
| "lifecycle live gone (Subscribe s d # cs) = (sock_id s \<in> live \<and> lifecycle live gone cs)"
| "lifecycle live gone (Unsubscribe s d # cs) = (sock_id s \<in> live \<and> lifecycle live gone cs)"
| "lifecycle live gone (Disconnection s # cs) =
     (sock_id s \<in> live \<and> lifecycle (live - {sock_id s}) (insert (sock_id s) gone) cs)"

section \<open>Cache client (config/redis.js)\<close>











section \<open>Device controller (controllers/deviceController.js)\<close>

















section \<open>Scheduler (jobs/monitoringJob.js)\<close>











section \<open>Notions used in the statements\<close>

text \<open>The fields of an alert that no later step of a check changes.\<close>

definition core :: "alert \<Rightarrow> nat \<times> nat \<times> level \<times> string" where
  "core a = (alert_id a, deviceId a, level a, message a)"



text \<open>What a call added to the log of emissions.\<close>

definition sent_by :: "hub \<Rightarrow> hub \<Rightarrow> emission list" where
  "sent_by h h' = drop (length (emitted h)) (emitted h')"

text \<open>Every entry of the index is a non-empty list without duplicates.\<close>

definition index_ok :: "(js_value \<rightharpoonup> string list) \<Rightarrow> bool" where
  "index_ok idx = (\<forall>d subs. idx d = Some subs \<longrightarrow> subs \<noteq> [] \<and> distinct subs)"

text \<open>What one visit of the \<open>forEach\<close> does to the entry of a device.\<close>

definition strip :: "string \<Rightarrow> string list option \<Rightarrow> string list option" where
  "strip i e =
     (case e of
        None \<Rightarrow> None
      | Some subs \<Rightarrow>
          if i \<in> set subs then (if remove1 i subs = [] then None else Some (remove1 i subs))
          else Some subs)"

text \<open>
  The state of the hub with respect to the sockets connected now (\<open>live\<close>) and
  those disconnected (\<open>gone\<close>): the clients are the live sockets; every entry of the
  index is a non-empty, duplicate-free list of live sockets; and the subscriptions of a client
  are the devices whose entry holds its socket.
\<close>

definition hub_inv :: "string set \<Rightarrow> string set \<Rightarrow> hub \<Rightarrow> bool" where
  "hub_inv live gone h \<longleftrightarrow>
     dom (connectedClients h) = live \<and> live \<inter> gone = {}
   \<and> (\<forall>d subs. deviceSubscriptions h d = Some subs \<longrightarrow>
         subs \<noteq> [] \<and> distinct subs \<and> set subs \<subseteq> live)
   \<and> (\<forall>i c. connectedClients h i = Some c \<longrightarrow>
         distinct (subscriptions c)
       \<and> (\<forall>d. d \<in> set (subscriptions c) \<longleftrightarrow>
              (\<exists>subs. deviceSubscriptions h d = Some subs \<and> i \<in> set subs)))"



section \<open>Sample data\<close>

text \<open>
  A network in which every host answers the echo in 40 ms and every URL answers 200 in
  1500 ms, with no failing collaborator; one device probed over HTTP and one by echo.
\<close>

definition calm_env :: env where
  "calm_env = \<lparr> ping_net = (\<lambda>h. PingReply True 40), http_net = (\<lambda>u. HttpReplied 200 1500),
                now = 100, faults = (\<lambda>x. False) \<rparr>"

definition down_env :: env where
  "down_env = calm_env\<lparr> ping_net := (\<lambda>h. PingReply False 0) \<rparr>"

text \<open>Here every HTTP exchange fails in transport with an error that has an empty message.\<close>

definition mute_env :: env where
  "mute_env = calm_env\<lparr> http_net := (\<lambda>u. HttpFailed ''ENETUNREACH'' (Some [])) \<rparr>"


definition web_device :: device where
  "web_device = \<lparr> dev_id = 7, name = ''web-01'', ip = ''10.0.0.7'', dev_type = Server,
                  status = Online,
                  responseTime = Some 30, lastCheck = Some 70,
                  checkUrl = Some ''http://host/health'', port = None, description = None,
                  isActive = True,
                  consecutiveFailures = 0, lastError = None \<rparr>"

definition ping_device :: device where
  "ping_device = \<lparr> dev_id = 9, name = ''core-sw'', ip = ''10.0.0.9'', dev_type = Switch,
                   status = Offline,
                   responseTime = None, lastCheck = Some 70, checkUrl = None, port = None,
                   description = None, isActive = True, consecutiveFailures = 2,
                   lastError = Some ''Host unreachable'' \<rparr>"

definition old_alert :: alert where
  "old_alert = \<lparr> alert_id = 1, deviceId = 9, alert_device = ''core-sw'',
                 message = ''Device is unreachable'', level = Disaster, timestamp = 40,
                 acknowledged = False, resolved = False, resolvedAt = None, emailSent = True \<rparr>"

definition fleet :: world where
  "fleet = \<lparr> devices = [web_device, ping_device], alerts = [old_alert], next_alert_id = 2,
             email_initialized = True, email_log = [], ws_io = True, ws_log = [] \<rparr>"


text \<open>Scenario E of the specification.\<close>

definition sock_a :: socket where
  "sock_a = \<lparr> sock_id = ''a'', userId = 1, username = ''ana'', role = ''admin'' \<rparr>"

definition sock_b :: socket where
  "sock_b = \<lparr> sock_id = ''b'', userId = 2, username = ''bob'', role = ''viewer'' \<rparr>"

definition sock_c :: socket where
  "sock_c = \<lparr> sock_id = ''c'', userId = 3, username = ''cy'', role = ''viewer'' \<rparr>"

definition three_online :: "string \<rightharpoonup> bool" where
  "three_online = [''a'' \<mapsto> True, ''b'' \<mapsto> True, ''c'' \<mapsto> True]"

definition scenario_e :: hub where
  "scenario_e =
     run_hub [Connection sock_a 1, Connection sock_b 2, Connection sock_c 3,
              Subscribe sock_a (JNum 7), Subscribe sock_b (JNum 7)]
       (new_hub\<lparr> io := Some three_online \<rparr>)"

text \<open>Two sockets subscribe to device 7, then the first one disconnects.\<close>

definition subscribe_then_leave :: "hub_call list" where
  "subscribe_then_leave =
     [Connection sock_a 1, Connection sock_b 2, Subscribe sock_a (JNum 7),
      Subscribe sock_b (JNum 7), Disconnection sock_a]"







section \<open>Facts about the store\<close>




lemma sendAlertEmail_frame:
  "devices (snd (sendAlertEmail e a d w)) = devices w"
  "next_alert_id (snd (sendAlertEmail e a d w)) = next_alert_id w"
  by (simp_all add: sendAlertEmail_def Let_def)


lemma resolve_loop_devices: "devices (resolve_loop e as w) = devices w"
  by (induction as arbitrary: w) simp_all


lemma resolveDeviceAlerts_devices: "devices (resolveDeviceAlerts e i w) = devices w"
  by (simp add: resolveDeviceAlerts_def resolve_loop_devices)

lemma createAlert_Inl: "createAlert e d l m w = (Inl x, w') \<Longrightarrow> w' = w"
  by (simp add: createAlert_def Let_def split: if_splits)


lemma createAlert_devices: "devices (snd (createAlert e d l m w)) = devices w"
  by (simp add: createAlert_def Let_def sendAlertEmail_frame)

section \<open>Facts about a check\<close>

lemma probe_success_no_error: "success (probe e d) \<Longrightarrow> pr_error (probe e d) = None"
  by (auto simp: probe_def checkPing_def checkHttp_def http_catch_def
        split: ping_outcome.splits http_outcome.splits if_splits)

lemma checkDevice_instance:
  "fst (snd (checkDevice e d w)) =
     set_status e (evaluate (probe e d)) (pr_responseTime (probe e d)) (pr_error (probe e d)) d"
  by (simp add: checkDevice_def updateStatus_def Let_def split: prod.splits sum.splits)

lemma set_status_status: "status (set_status e s rt err d) = s"
  by (simp add: set_status_def Let_def)

lemma set_status_frame:
  "dev_id (set_status e s rt err d) = dev_id d"
  "name (set_status e s rt err d) = name d"
  by (simp_all add: set_status_def Let_def)

lemma checkDevice_InrD:
  assumes "checkDevice e d w = (Inr res, d', w')"
  shows "d' = set_status e (evaluate (probe e d)) (pr_responseTime (probe e d))
                (pr_error (probe e d)) d"
    and "res = \<lparr> r_status = evaluate (probe e d), r_responseTime = pr_responseTime (probe e d),
                  previousStatus = status d \<rparr>"
    and "\<not> faults e (SaveDevice (dev_id d))"
    and "alert_step e d' (status d) (evaluate (probe e d)) (pr_responseTime (probe e d))
           (w\<lparr> devices := save_device d' (devices w) \<rparr>) = (Inr (), w')"
  using assms
  by (auto simp: checkDevice_def updateStatus_def Let_def split: if_splits prod.splits sum.splits)

lemma checkDevice_Inr_status:
  "fst (checkDevice e d w) = Inr res \<Longrightarrow> r_status res = evaluate (probe e d)"
  using checkDevice_InrD(2) [of e d w res "fst (snd (checkDevice e d w))" "snd (snd (checkDevice e d w))"]
  by (metis check_result.select_convs(1) prod.collapse)

lemma evaluate_cases:
  "(success r \<and> (\<exists>t. pr_responseTime r = Some t \<and> t \<le> 1000) \<longrightarrow> evaluate r = Online)
 \<and> (success r \<and> (\<exists>t. pr_responseTime r = Some t \<and> t > 1000) \<longrightarrow> evaluate r = Warning)
 \<and> (\<not> success r \<and> truthy (pr_error r) \<longrightarrow> evaluate r = Offline)
 \<and> (\<not> success r \<and> \<not> truthy (pr_error r) \<longrightarrow> evaluate r = Unknown)"
  by (auto simp: evaluate_def slow_def Let_def)





section \<open>The sample probes\<close>

lemma probe_calm_web:
  "probe calm_env web_device =
     \<lparr> success = True, pr_responseTime = Some 1500, statusCode = Some 200, pr_error = None \<rparr>"
  by (simp add: probe_def checkHttp_def calm_env_def web_device_def truthy_def)

lemma probe_calm_ping:
  "probe calm_env ping_device =
     \<lparr> success = True, pr_responseTime = Some 40, statusCode = None, pr_error = None \<rparr>"
  by (simp add: probe_def checkPing_def calm_env_def ping_device_def truthy_def)

lemma probe_down_ping:
  "probe down_env ping_device =
     \<lparr> success = False, pr_responseTime = None, statusCode = None,
       pr_error = Some ''Host unreachable'' \<rparr>"
  by (simp add: probe_def checkPing_def down_env_def calm_env_def ping_device_def truthy_def)

lemma probe_mute_web:
  "probe mute_env web_device =
     \<lparr> success = False, pr_responseTime = None, statusCode = None, pr_error = Some [] \<rparr>"
  by (simp add: probe_def checkHttp_def http_catch_def mute_env_def calm_env_def web_device_def
        truthy_def)

section \<open>A check completes\<close>




lemma calm_faults: "\<not> faults calm_env x" "\<not> faults down_env x" "\<not> faults mute_env x"
  by (simp_all add: calm_env_def down_env_def mute_env_def)

lemma sample_fields:
  "status ping_device = Offline" "dev_id ping_device = 9" "name ping_device = ''core-sw''"
  "status web_device = Online" "dev_id web_device = 7" "name web_device = ''web-01''"
  by (simp_all add: ping_device_def web_device_def)




section \<open>C1: the status a check assigns\<close>

lemma slow_http_2xx:
  assumes "truthy (checkUrl d)"
    and "http_net e (fullUrl (the (checkUrl d)) (port d)) = HttpReplied st ms"
    and "200 \<le> st" and "st < 300" and "ms > 1000"
  shows "evaluate (probe e d) = Warning"
  using assms by (simp add: probe_def checkHttp_def evaluate_def slow_def)

text \<open>
  C1, as amended. The status that \<open>checkDevice\<close> writes to the device depends on the
  probe result alone: a successful probe with a response time of at most 1000 ms gives
  \<open>Online\<close>; a successful probe slower than 1000 ms gives \<open>Warning\<close>, for an HTTP probe
  too; a failed probe whose error text is non-empty gives \<open>Offline\<close>; a failed probe
  whose error text is absent or empty gives \<open>Unknown\<close>. The status returned is the one
  written.
\<close>

theorem checkDevice_status:
  "(success (probe e d) \<and> (\<exists>t. pr_responseTime (probe e d) = Some t \<and> t \<le> 1000)
      \<longrightarrow> status (fst (snd (checkDevice e d w))) = Online)
 \<and> (success (probe e d) \<and> (\<exists>t. pr_responseTime (probe e d) = Some t \<and> t > 1000)
      \<longrightarrow> status (fst (snd (checkDevice e d w))) = Warning)
 \<and> (truthy (checkUrl d)
      \<and> (\<exists>st ms. http_net e (fullUrl (the (checkUrl d)) (port d)) = HttpReplied st ms
            \<and> 200 \<le> st \<and> st < 300 \<and> ms > 1000)
      \<longrightarrow> status (fst (snd (checkDevice e d w))) = Warning)
 \<and> (\<not> success (probe e d) \<and> truthy (pr_error (probe e d))
      \<longrightarrow> status (fst (snd (checkDevice e d w))) = Offline)
 \<and> (\<not> success (probe e d) \<and> \<not> truthy (pr_error (probe e d))
      \<longrightarrow> status (fst (snd (checkDevice e d w))) = Unknown)
 \<and> (\<forall>res. fst (checkDevice e d w) = Inr res
      \<longrightarrow> r_status res = status (fst (snd (checkDevice e d w))))"
proof -
  have h: "truthy (checkUrl d)
      \<and> (\<exists>st ms. http_net e (fullUrl (the (checkUrl d)) (port d)) = HttpReplied st ms
            \<and> 200 \<le> st \<and> st < 300 \<and> ms > 1000)
      \<longrightarrow> evaluate (probe e d) = Warning"
    using slow_http_2xx [of d e] by blast
  have r: "\<forall>res. fst (checkDevice e d w) = Inr res \<longrightarrow> r_status res = evaluate (probe e d)"
    using checkDevice_Inr_status [of e d w] by blast
  note c = evaluate_cases [of "probe e d"]
  show ?thesis
    unfolding checkDevice_instance set_status_status
    using c h r by (intro conjI) (elim conjE, assumption)+
qed

theorem checkDevice_status_witness:
  "status (fst (snd (checkDevice calm_env ping_device fleet))) = Online
 \<and> status (fst (snd (checkDevice calm_env web_device fleet))) = Warning
 \<and> status (fst (snd (checkDevice down_env ping_device fleet))) = Offline
 \<and> status (fst (snd (checkDevice mute_env web_device fleet))) = Unknown"
proof (intro conjI)
  have a: "success (probe calm_env ping_device)
           \<and> (\<exists>t. pr_responseTime (probe calm_env ping_device) = Some t \<and> t \<le> 1000)"
    by (simp add: probe_calm_ping)
  from checkDevice_status [of calm_env ping_device fleet]
  have "success (probe calm_env ping_device)
           \<and> (\<exists>t. pr_responseTime (probe calm_env ping_device) = Some t \<and> t \<le> 1000)
        \<longrightarrow> status (fst (snd (checkDevice calm_env ping_device fleet))) = Online"
    by (rule conjunct1)
  with a show "status (fst (snd (checkDevice calm_env ping_device fleet))) = Online"
    by (rule rev_mp)
next
  have b: "success (probe calm_env web_device)
           \<and> (\<exists>t. pr_responseTime (probe calm_env web_device) = Some t \<and> t > 1000)"
    by (simp add: probe_calm_web)
  from checkDevice_status [of calm_env web_device fleet]
  have "success (probe calm_env web_device)
           \<and> (\<exists>t. pr_responseTime (probe calm_env web_device) = Some t \<and> t > 1000)
        \<longrightarrow> status (fst (snd (checkDevice calm_env web_device fleet))) = Warning"
    by (elim conjE)
  with b show "status (fst (snd (checkDevice calm_env web_device fleet))) = Warning"
    by (rule rev_mp)
next
  have c: "\<not> success (probe down_env ping_device) \<and> truthy (pr_error (probe down_env ping_device))"
    by (simp add: probe_down_ping truthy_def)
  from checkDevice_status [of down_env ping_device fleet]
  have "\<not> success (probe down_env ping_device) \<and> truthy (pr_error (probe down_env ping_device))
        \<longrightarrow> status (fst (snd (checkDevice down_env ping_device fleet))) = Offline"
    by (elim conjE)
  with c show "status (fst (snd (checkDevice down_env ping_device fleet))) = Offline"
    by (rule rev_mp)
next
  have d: "\<not> success (probe mute_env web_device) \<and> \<not> truthy (pr_error (probe mute_env web_device))"
    by (simp add: probe_mute_web truthy_def)
  from checkDevice_status [of mute_env web_device fleet]
  have "\<not> success (probe mute_env web_device) \<and> \<not> truthy (pr_error (probe mute_env web_device))
        \<longrightarrow> status (fst (snd (checkDevice mute_env web_device fleet))) = Unknown"
    by (elim conjE)
  with d show "status (fst (snd (checkDevice mute_env web_device fleet))) = Unknown"
    by (rule rev_mp)
qed

text \<open>
  C1 as stated fails: an HTTP probe that fails in transport with an empty error message
  is a failed probe, and the device is left \<open>Unknown\<close>, not \<open>Offline\<close>.
\<close>

theorem failed_probe_not_offline:
  "\<not> success (probe mute_env web_device)
 \<and> status (fst (snd (checkDevice mute_env web_device fleet))) = Unknown"
  by (simp add: checkDevice_instance set_status_status probe_mute_web evaluate_def truthy_def
        slow_def)

section \<open>C2: the alerts of a transition\<close>








section \<open>C4: the record after a check\<close>

lemma alert_step_devices: "devices (snd (alert_step e d old s rt w)) = devices w"
proof -
  have c: "\<And>l m. devices (snd (createAlert e d l m w)) = devices w"
    by (rule createAlert_devices)
  show ?thesis
    unfolding alert_step_def
    using c [of Disaster "''Device is unreachable''"]
      c [of WarningLevel "''High response time: '' @ (case rt of None \<Rightarrow> ''null'' | Some t \<Rightarrow> string_of_int t) @ ''ms''"]
      c [of Information "''Device is back online''"]
    by (auto simp: resolveDeviceAlerts_devices split: prod.splits sum.splits)
qed

lemma checkDevice_devices:
  "\<not> faults e (SaveDevice (dev_id d)) \<Longrightarrow>
     devices (snd (snd (checkDevice e d w))) =
       save_device (fst (snd (checkDevice e d w))) (devices w)"
proof -
  assume nf: "\<not> faults e (SaveDevice (dev_id d))"
  let ?d' = "set_status e (evaluate (probe e d)) (pr_responseTime (probe e d)) (pr_error (probe e d)) d"
  let ?w1 = "w\<lparr> devices := save_device ?d' (devices w) \<rparr>"
  let ?st = "alert_step e ?d' (status d) (evaluate (probe e d)) (pr_responseTime (probe e d)) ?w1"
  have "snd (snd (checkDevice e d w)) = snd ?st"
    using nf by (simp add: checkDevice_def updateStatus_def Let_def split: prod.splits sum.splits)
  then show ?thesis
    by (simp add: alert_step_devices checkDevice_instance)
qed

lemma save_device_row:
  "row \<in> set (save_device d rows) \<Longrightarrow> dev_id row = dev_id d \<Longrightarrow> row = d"
  by (auto simp: save_device_def split: if_splits)

lemma set_status_fields:
  "responseTime (set_status e s rt err d) = rt"
  "lastCheck (set_status e s rt err d) = Some (now e)"
  "consecutiveFailures (set_status e s rt err d) =
     (if s = Offline \<or> s = Warning then consecutiveFailures d + 1 else 0)"
  "lastError (set_status e s rt err d) = (if s = Offline \<or> s = Warning then err else None)"
  by (simp_all add: set_status_def Let_def)

lemma evaluate_Warning_success: "evaluate r = Warning \<Longrightarrow> success r"
  by (auto simp: evaluate_def Let_def split: if_splits)

text \<open>
  C4, as amended. Every check sets \<open>status\<close>, \<open>responseTime\<close> and \<open>lastCheck = now\<close>
  on the device. When the new status is offline or warning, \<open>consecutiveFailures\<close>
  grows by one and \<open>lastError\<close> becomes the error of the probe, which for a slow
  successful probe is \<open>null\<close>; when the new status is online, \<open>consecutiveFailures\<close>
  is 0 and \<open>lastError\<close> is \<open>null\<close>. When the save succeeds, the row of the device in
  the table is the updated instance.
\<close>

theorem checkDevice_record:
  "status (fst (snd (checkDevice e d w))) = evaluate (probe e d)
 \<and> responseTime (fst (snd (checkDevice e d w))) = pr_responseTime (probe e d)
 \<and> lastCheck (fst (snd (checkDevice e d w))) = Some (now e)
 \<and> (status (fst (snd (checkDevice e d w))) = Offline \<longrightarrow>
      consecutiveFailures (fst (snd (checkDevice e d w))) = consecutiveFailures d + 1
      \<and> lastError (fst (snd (checkDevice e d w))) = pr_error (probe e d))
 \<and> (status (fst (snd (checkDevice e d w))) = Warning \<longrightarrow>
      consecutiveFailures (fst (snd (checkDevice e d w))) = consecutiveFailures d + 1
      \<and> lastError (fst (snd (checkDevice e d w))) = pr_error (probe e d)
      \<and> pr_error (probe e d) = None)
 \<and> (status (fst (snd (checkDevice e d w))) = Online
      \<or> status (fst (snd (checkDevice e d w))) = Unknown \<longrightarrow>
      consecutiveFailures (fst (snd (checkDevice e d w))) = 0
      \<and> lastError (fst (snd (checkDevice e d w))) = None)
 \<and> (\<not> faults e (SaveDevice (dev_id d)) \<longrightarrow>
      (\<forall>row \<in> set (devices (snd (snd (checkDevice e d w)))).
         dev_id row = dev_id d \<longrightarrow> row = fst (snd (checkDevice e d w))))"
proof -
  let ?d' = "fst (snd (checkDevice e d w))"
  have s: "status ?d' = evaluate (probe e d)"
    by (simp add: checkDevice_instance set_status_status)
  have w: "evaluate (probe e d) = Warning \<Longrightarrow> pr_error (probe e d) = None"
    using evaluate_Warning_success [of "probe e d"] probe_success_no_error [of e d] by simp
  have rows: "\<not> faults e (SaveDevice (dev_id d)) \<longrightarrow>
      (\<forall>row \<in> set (devices (snd (snd (checkDevice e d w)))). dev_id row = dev_id d \<longrightarrow> row = ?d')"
  proof (intro impI ballI)
    fix row
    assume nf: "\<not> faults e (SaveDevice (dev_id d))"
      and r: "row \<in> set (devices (snd (snd (checkDevice e d w))))" and i: "dev_id row = dev_id d"
    have "dev_id ?d' = dev_id d" by (simp add: checkDevice_instance set_status_frame)
    with save_device_row [of row ?d' "devices w"] r i checkDevice_devices [OF nf, of w]
    show "row = ?d'" by simp
  qed
  have f: "responseTime ?d' = pr_responseTime (probe e d)" "lastCheck ?d' = Some (now e)"
    "evaluate (probe e d) = Offline \<Longrightarrow> consecutiveFailures ?d' = consecutiveFailures d + 1
       \<and> lastError ?d' = pr_error (probe e d)"
    "evaluate (probe e d) = Warning \<Longrightarrow> consecutiveFailures ?d' = consecutiveFailures d + 1
       \<and> lastError ?d' = pr_error (probe e d)"
    "evaluate (probe e d) = Online \<or> evaluate (probe e d) = Unknown \<Longrightarrow>
       consecutiveFailures ?d' = 0 \<and> lastError ?d' = None"
    by (auto simp: checkDevice_instance set_status_fields)
  show ?thesis
    using s f w rows by simp
qed

theorem checkDevice_record_witness:
  "status (fst (snd (checkDevice calm_env web_device fleet))) = Warning
 \<and> consecutiveFailures (fst (snd (checkDevice calm_env web_device fleet))) = 1
 \<and> lastError (fst (snd (checkDevice calm_env web_device fleet))) = None
 \<and> status (fst (snd (checkDevice down_env ping_device fleet))) = Offline
 \<and> consecutiveFailures (fst (snd (checkDevice down_env ping_device fleet))) = 3
 \<and> lastError (fst (snd (checkDevice down_env ping_device fleet))) = Some ''Host unreachable''
 \<and> status (fst (snd (checkDevice calm_env ping_device fleet))) = Online
 \<and> consecutiveFailures (fst (snd (checkDevice calm_env ping_device fleet))) = 0
 \<and> lastError (fst (snd (checkDevice calm_env ping_device fleet))) = None
 \<and> devices (snd (snd (checkDevice calm_env ping_device fleet)))
      = [web_device, fst (snd (checkDevice calm_env ping_device fleet))]"
proof -
  have e: "evaluate (probe calm_env web_device) = Warning"
    "evaluate (probe down_env ping_device) = Offline"
    "evaluate (probe calm_env ping_device) = Online"
    by (simp_all add: probe_calm_web probe_down_ping probe_calm_ping evaluate_def slow_def truthy_def)
  have c: "consecutiveFailures web_device = 0" "consecutiveFailures ping_device = 2"
    by (simp_all add: web_device_def ping_device_def)
  have p: "pr_error (probe down_env ping_device) = Some ''Host unreachable''"
    by (simp add: probe_down_ping)
  have di: "dev_id (fst (snd (checkDevice calm_env ping_device fleet))) = 9"
    by (simp add: checkDevice_instance set_status_frame sample_fields)
  have fl: "devices fleet = [web_device, ping_device]"
    by (simp add: fleet_def)
  have d: "devices (snd (snd (checkDevice calm_env ping_device fleet)))
      = [web_device, fst (snd (checkDevice calm_env ping_device fleet))]"
    using checkDevice_devices [OF calm_faults(1), of ping_device fleet]
    by (simp add: save_device_def fl di sample_fields)
  from checkDevice_record [of calm_env web_device fleet]
    checkDevice_record [of down_env ping_device fleet]
    checkDevice_record [of calm_env ping_device fleet]
  show ?thesis
    by (simp add: e c p d)
qed

text \<open>
  C4 as stated fails: after a slow successful probe the status is warning and
  \<open>lastError\<close> is \<open>null\<close>; no text such as "high response time" is stored.
\<close>

theorem slow_probe_no_error_text:
  "status (fst (snd (checkDevice calm_env web_device fleet))) = Warning
 \<and> success (probe calm_env web_device)
 \<and> lastError (fst (snd (checkDevice calm_env web_device fleet))) = None"
  by (simp add: checkDevice_instance set_status_status set_status_fields probe_calm_web
        evaluate_def slow_def)

section \<open>Recovery: offline or warning to online\<close>









section \<open>C5: a recovery resolves what was open\<close>



section \<open>C9: the recovery alert is resolved at once\<close>



section \<open>C7: a failing check does not stop the cycle\<close>











section \<open>C6: who receives a device update\<close>

lemma delivered_scoped:
  "delivered sockets (map (\<lambda>j. ToSocket j ev) js) i = replicate (length (filter (\<lambda>j. j = i) js)) ev"
  by (induction js) simp_all

lemma distinct_count: "distinct js \<Longrightarrow> length (filter (\<lambda>j. j = i) js) = (if i \<in> set js then 1 else 0)"
  by (induction js) auto

lemma member_count: "(0 < length (filter (\<lambda>j. j = i) js)) = (i \<in> set js)"
  by (induction js) auto

lemma sent_scoped:
  "io h = Some sockets \<Longrightarrow> deviceSubscriptions h d = Some subs \<Longrightarrow>
     sent_by h (sendDeviceUpdate h d p t) =
       map (\<lambda>j. ToSocket j (DeviceUpdate d p t)) (filter (\<lambda>j. sockets j = Some True) subs)"
  by (simp add: sent_by_def sendDeviceUpdate_def)

lemma sent_global:
  "io h = Some sockets \<Longrightarrow> deviceSubscriptions h d = None \<Longrightarrow>
     sent_by h (sendDeviceUpdate h d p t) = [ToAll (DeviceStatus p)]"
  by (simp add: sent_by_def sendDeviceUpdate_def)

text \<open>
  C6. Without a server \<open>sendDeviceUpdate\<close> does nothing. With one: when the index has
  an entry for the device, the only event any socket receives from the call is the
  \<open>device:update\<close>, and a socket receives it exactly when it is in the entry and the
  server knows it as connected (once, the entry being duplicate-free); when the index
  has no entry, every connected socket receives the generic \<open>device:status\<close> and
  nothing else is sent.
\<close>

theorem sendDeviceUpdate_delivery:
  "(io h = None \<longrightarrow> sendDeviceUpdate h d p t = h)
 \<and> (\<forall>sockets. io h = Some sockets \<longrightarrow>
      (\<forall>subs. deviceSubscriptions h d = Some subs \<longrightarrow>
         (\<forall>i. set (delivered sockets (sent_by h (sendDeviceUpdate h d p t)) i) \<subseteq> {DeviceUpdate d p t}
            \<and> (DeviceUpdate d p t \<in> set (delivered sockets (sent_by h (sendDeviceUpdate h d p t)) i)
                 \<longleftrightarrow> i \<in> set subs \<and> sockets i = Some True)
            \<and> (distinct subs \<longrightarrow>
                 delivered sockets (sent_by h (sendDeviceUpdate h d p t)) i =
                   (if i \<in> set subs \<and> sockets i = Some True then [DeviceUpdate d p t] else []))))
    \<and> (deviceSubscriptions h d = None \<longrightarrow>
         (\<forall>i. delivered sockets (sent_by h (sendDeviceUpdate h d p t)) i =
                (if sockets i = Some True then [DeviceStatus p] else []))))"
proof (intro conjI impI allI)
  assume "io h = None"
  then show "sendDeviceUpdate h d p t = h" by (simp add: sendDeviceUpdate_def)
next
  fix sockets subs i
  assume a: "io h = Some sockets" "deviceSubscriptions h d = Some subs"
  let ?js = "filter (\<lambda>j. sockets j = Some True) subs"
  have dl: "delivered sockets (sent_by h (sendDeviceUpdate h d p t)) i =
              replicate (length (filter (\<lambda>j. j = i) ?js)) (DeviceUpdate d p t)"
    by (simp only: sent_scoped [OF a] delivered_scoped)
  show "set (delivered sockets (sent_by h (sendDeviceUpdate h d p t)) i) \<subseteq> {DeviceUpdate d p t}"
    by (simp only: dl) (simp add: set_replicate_conv_if)
  show "DeviceUpdate d p t \<in> set (delivered sockets (sent_by h (sendDeviceUpdate h d p t)) i)
          \<longleftrightarrow> i \<in> set subs \<and> sockets i = Some True"
    using member_count [of i ?js] by (simp only: dl) (auto simp: set_replicate_conv_if)
  assume "distinct subs"
  then have "distinct ?js" by simp
  from distinct_count [OF this, of i]
  show "delivered sockets (sent_by h (sendDeviceUpdate h d p t)) i =
          (if i \<in> set subs \<and> sockets i = Some True then [DeviceUpdate d p t] else [])"
    by (simp only: dl) auto
next
  fix sockets i
  assume a: "io h = Some sockets" "deviceSubscriptions h d = None"
  show "delivered sockets (sent_by h (sendDeviceUpdate h d p t)) i =
          (if sockets i = Some True then [DeviceStatus p] else [])"
    by (simp add: sent_global [OF a])
qed

lemma scenario_e_index:
  "deviceSubscriptions scenario_e = [JNum 7 \<mapsto> [''a'', ''b'']]"
  by (simp add: scenario_e_def run_hub_def new_hub_def handleConnection_def emit_to_def
        handleDeviceSubscribe_def js_truthy_def sock_a_def sock_b_def sock_c_def Let_def)

lemma scenario_e_io: "io scenario_e = Some three_online"
  by (simp add: scenario_e_def run_hub_def new_hub_def handleConnection_def emit_to_def
        handleDeviceSubscribe_def js_truthy_def sock_a_def sock_b_def sock_c_def Let_def)

theorem sendDeviceUpdate_delivery_witness:
  "sendDeviceUpdate new_hub (JNum 7) ''up'' 5 = new_hub
 \<and> delivered three_online (sent_by scenario_e (sendDeviceUpdate scenario_e (JNum 7) ''up'' 5)) ''a''
     = [DeviceUpdate (JNum 7) ''up'' 5]
 \<and> delivered three_online (sent_by scenario_e (sendDeviceUpdate scenario_e (JNum 7) ''up'' 5)) ''b''
     = [DeviceUpdate (JNum 7) ''up'' 5]
 \<and> delivered three_online (sent_by scenario_e (sendDeviceUpdate scenario_e (JNum 7) ''up'' 5)) ''c''
     = []
 \<and> delivered three_online (sent_by scenario_e (sendDeviceUpdate scenario_e (JNum 9) ''up'' 5)) ''a''
     = [DeviceStatus ''up'']
 \<and> delivered three_online (sent_by scenario_e (sendDeviceUpdate scenario_e (JNum 9) ''up'' 5)) ''c''
     = [DeviceStatus ''up'']"
proof -
  have s7: "deviceSubscriptions scenario_e (JNum 7) = Some [''a'', ''b'']"
    and s9: "deviceSubscriptions scenario_e (JNum 9) = None"
    by (simp_all add: scenario_e_index)
  have on: "three_online ''a'' = Some True" "three_online ''b'' = Some True"
    "three_online ''c'' = Some True"
    by (simp_all add: three_online_def)
  have dis: "distinct [''a'', ''b'']" by simp
  have n: "io new_hub = None" by (simp add: new_hub_def)
  note t0 = sendDeviceUpdate_delivery [of new_hub "JNum 7" "''up''" 5]
  note t7 = sendDeviceUpdate_delivery [of scenario_e "JNum 7" "''up''" 5]
  note t9 = sendDeviceUpdate_delivery [of scenario_e "JNum 9" "''up''" 5]
  from t0 n have z: "sendDeviceUpdate new_hub (JNum 7) ''up'' 5 = new_hub"
    by blast
  from t7 scenario_e_io s7 dis
  have a: "\<And>i. delivered three_online (sent_by scenario_e (sendDeviceUpdate scenario_e (JNum 7) ''up'' 5)) i =
         (if i \<in> set [''a'', ''b''] \<and> three_online i = Some True then [DeviceUpdate (JNum 7) ''up'' 5] else [])"
    by blast
  from t9 scenario_e_io s9
  have b: "\<And>i. delivered three_online (sent_by scenario_e (sendDeviceUpdate scenario_e (JNum 9) ''up'' 5)) i =
         (if three_online i = Some True then [DeviceStatus ''up''] else [])"
    by blast
  show ?thesis
    by (simp add: a b on z)
qed

section \<open>C10: the subscription index\<close>

lemma index_ok_empty: "index_ok Map.empty"
  by (simp add: index_ok_def)

lemma index_ok_upd:
  "index_ok idx \<Longrightarrow> subs \<noteq> [] \<Longrightarrow> distinct subs \<Longrightarrow> index_ok (idx(d \<mapsto> subs))"
  by (simp add: index_ok_def)

lemma index_ok_del: "index_ok idx \<Longrightarrow> index_ok (idx(d := None))"
  by (simp add: index_ok_def)

lemma index_ok_drop: "index_ok idx \<Longrightarrow> index_ok (drop_subscriber i d idx)"
proof (cases "idx d")
  case None
  assume "index_ok idx"
  with None show ?thesis by (simp add: drop_subscriber_def)
next
  case (Some subs)
  assume ok: "index_ok idx"
  then have "distinct subs" using Some by (simp add: index_ok_def)
  then have "distinct (remove1 i subs)" by simp
  with ok Some show ?thesis
    by (simp add: drop_subscriber_def Let_def index_ok_upd index_ok_del)
qed

lemma index_ok_fold: "index_ok idx \<Longrightarrow> index_ok (fold (drop_subscriber i) ds idx)"
  by (induction ds arbitrary: idx) (simp_all add: index_ok_drop)

lemma index_ok_connection:
  "index_ok (deviceSubscriptions h) \<Longrightarrow> index_ok (deviceSubscriptions (handleConnection h s t))"
  by (simp add: handleConnection_def emit_to_def)

lemma index_ok_subscribe:
  assumes "index_ok (deviceSubscriptions h)"
  shows "index_ok (deviceSubscriptions (handleDeviceSubscribe h s d))"
proof (cases "deviceSubscriptions h d")
  case None
  with assms show ?thesis
    by (simp add: handleDeviceSubscribe_def emit_to_def Let_def index_ok_upd)
next
  case (Some subs)
  with assms have "distinct subs" by (simp add: index_ok_def)
  with assms Some show ?thesis
    by (simp add: handleDeviceSubscribe_def emit_to_def Let_def index_ok_upd)
qed

lemma index_ok_unsubscribe:
  assumes "index_ok (deviceSubscriptions h)"
  shows "index_ok (deviceSubscriptions (handleDeviceUnsubscribe h s d))"
proof (cases "deviceSubscriptions h d")
  case None
  with assms show ?thesis
    by (simp add: handleDeviceUnsubscribe_def emit_to_def)
next
  case (Some subs)
  with assms have "distinct (remove1 (sock_id s) subs)" by (simp add: index_ok_def)
  with assms Some show ?thesis
    by (simp add: handleDeviceUnsubscribe_def emit_to_def Let_def index_ok_upd index_ok_del)
qed

lemma index_ok_disconnection:
  "index_ok (deviceSubscriptions h) \<Longrightarrow> index_ok (deviceSubscriptions (handleDisconnection h s))"
  by (simp add: handleDisconnection_def index_ok_fold split: option.splits)

lemma index_ok_step:
  "index_ok (deviceSubscriptions h) \<Longrightarrow> index_ok (deviceSubscriptions (hub_step h c))"
  by (cases c)
     (simp_all add: index_ok_connection index_ok_subscribe index_ok_unsubscribe
        index_ok_disconnection)

lemma index_ok_run:
  "index_ok (deviceSubscriptions h) \<Longrightarrow> index_ok (deviceSubscriptions (run_hub cs h))"
  unfolding run_hub_def
  by (induction cs arbitrary: h) (simp_all add: index_ok_step)

lemma drop_subscriber_upd: "drop_subscriber i d idx = idx(d := strip i (idx d))"
  by (cases "idx d") (auto simp: drop_subscriber_def strip_def Let_def)

lemma fold_drop_subscriber:
  "distinct ds \<Longrightarrow>
     fold (drop_subscriber i) ds idx = (\<lambda>x. if x \<in> set ds then strip i (idx x) else idx x)"
proof (induction ds arbitrary: idx)
  case Nil
  show ?case by simp
next
  case (Cons d ds)
  then have d: "d \<notin> set ds" and ds: "distinct ds" by simp_all
  have "fold (drop_subscriber i) (d # ds) idx = fold (drop_subscriber i) ds (drop_subscriber i d idx)"
    by simp
  also have "\<dots> = (\<lambda>x. if x \<in> set ds then strip i (drop_subscriber i d idx x)
                         else drop_subscriber i d idx x)"
    by (rule Cons.IH [OF ds])
  also have "\<dots> = (\<lambda>x. if x \<in> set (d # ds) then strip i (idx x) else idx x)"
  proof (rule ext)
    fix x
    show "(if x \<in> set ds then strip i (drop_subscriber i d idx x) else drop_subscriber i d idx x)
        = (if x \<in> set (d # ds) then strip i (idx x) else idx x)"
      using d by (cases "x = d") (simp_all add: drop_subscriber_upd)
  qed
  finally show ?case .
qed

lemma strip_Some:
  "strip i e = Some subs' \<Longrightarrow>
     \<exists>subs. e = Some subs \<and> ((i \<in> set subs \<and> subs' = remove1 i subs \<and> subs' \<noteq> [])
                             \<or> (i \<notin> set subs \<and> subs' = subs))"
  by (cases e) (auto simp: strip_def split: if_splits)

lemma strip_keeps:
  assumes "e = Some subs" and "j \<in> set subs" and "j \<noteq> i"
  shows "\<exists>subs'. strip i e = Some subs' \<and> j \<in> set subs'"
proof -
  have m: "j \<in> set (remove1 i subs)" using assms(2,3) by simp
  then have "remove1 i subs \<noteq> []" by auto
  with m assms show ?thesis by (simp add: strip_def)
qed

lemma hub_invI:
  assumes "dom (connectedClients h) = live" and "live \<inter> gone = {}"
    and "\<And>d subs. deviceSubscriptions h d = Some subs \<Longrightarrow>
           subs \<noteq> [] \<and> distinct subs \<and> set subs \<subseteq> live"
    and "\<And>i c. connectedClients h i = Some c \<Longrightarrow> distinct (subscriptions c)"
    and "\<And>i c d. connectedClients h i = Some c \<Longrightarrow>
           d \<in> set (subscriptions c) \<longleftrightarrow> (\<exists>subs. deviceSubscriptions h d = Some subs \<and> i \<in> set subs)"
  shows "hub_inv live gone h"
  unfolding hub_inv_def using assms by blast

lemma hub_invD:
  assumes "hub_inv live gone h"
  shows "dom (connectedClients h) = live" and "live \<inter> gone = {}"
    and "\<And>d subs. deviceSubscriptions h d = Some subs \<Longrightarrow>
           subs \<noteq> [] \<and> distinct subs \<and> set subs \<subseteq> live"
    and "\<And>i c. connectedClients h i = Some c \<Longrightarrow> distinct (subscriptions c)"
    and "\<And>i c d. connectedClients h i = Some c \<Longrightarrow>
           d \<in> set (subscriptions c) \<longleftrightarrow> (\<exists>subs. deviceSubscriptions h d = Some subs \<and> i \<in> set subs)"
  using assms unfolding hub_inv_def by blast+

lemma hub_inv_new: "hub_inv {} {} (new_hub\<lparr> io := srv \<rparr>)"
  by (simp add: hub_inv_def new_hub_def)

lemma hub_inv_emit: "hub_inv live gone (emit_to s ev h) = hub_inv live gone h"
  by (simp add: hub_inv_def emit_to_def)

lemma hub_inv_connection:
  assumes inv: "hub_inv live gone h" and fresh: "sock_id s \<notin> live" "sock_id s \<notin> gone"
  shows "hub_inv (insert (sock_id s) live) gone (handleConnection h s t)"
proof (rule hub_invI)
  note D = hub_invD [OF inv]
  let ?h = "handleConnection h s t"
  let ?c0 = "\<lparr> socketId = sock_id s, c_userId = userId s, c_username = username s,
                c_role = role s, connectedAt = t, subscriptions = [] \<rparr>"
  have cl: "connectedClients ?h = (connectedClients h)(sock_id s \<mapsto> ?c0)"
    and ix: "deviceSubscriptions ?h = deviceSubscriptions h"
    by (simp_all add: handleConnection_def emit_to_def)
  have no: "\<And>d subs. deviceSubscriptions h d = Some subs \<Longrightarrow> sock_id s \<notin> set subs"
    using D(3) fresh(1) by blast
  show "dom (connectedClients ?h) = insert (sock_id s) live"
    by (simp add: cl D(1))
  show "insert (sock_id s) live \<inter> gone = {}"
    using D(2) fresh(2) by simp
  show "\<And>d subs. deviceSubscriptions ?h d = Some subs \<Longrightarrow>
          subs \<noteq> [] \<and> distinct subs \<and> set subs \<subseteq> insert (sock_id s) live"
    using D(3) unfolding ix by blast
  show "\<And>i c. connectedClients ?h i = Some c \<Longrightarrow> distinct (subscriptions c)"
    using D(4) unfolding cl by (auto split: if_splits)
  show "\<And>i c d. connectedClients ?h i = Some c \<Longrightarrow>
          d \<in> set (subscriptions c) \<longleftrightarrow> (\<exists>subs. deviceSubscriptions ?h d = Some subs \<and> i \<in> set subs)"
  proof -
    fix i c d assume c: "connectedClients ?h i = Some c"
    show "d \<in> set (subscriptions c) \<longleftrightarrow> (\<exists>subs. deviceSubscriptions ?h d = Some subs \<and> i \<in> set subs)"
    proof (cases "i = sock_id s")
      case True
      with c have "subscriptions c = []" by (auto simp: cl)
      with True no show ?thesis unfolding ix by auto
    next
      case False
      with c have "connectedClients h i = Some c" by (simp add: cl)
      from D(5) [OF this] show ?thesis unfolding ix .
    qed
  qed
qed

lemma hub_inv_disconnection:
  assumes inv: "hub_inv live gone h" and mem: "sock_id s \<in> live"
  shows "hub_inv (live - {sock_id s}) (insert (sock_id s) gone) (handleDisconnection h s)"
proof (rule hub_invI)
  note D = hub_invD [OF inv]
  let ?i = "sock_id s"
  let ?h = "handleDisconnection h s"
  from mem D(1) obtain c where c: "connectedClients h ?i = Some c" by blast
  have cl: "connectedClients ?h = (connectedClients h)(?i := None)"
    by (simp add: handleDisconnection_def)
  have "deviceSubscriptions ?h = fold (drop_subscriber ?i) (subscriptions c) (deviceSubscriptions h)"
    by (simp add: handleDisconnection_def c)
  also have "\<dots> = (\<lambda>x. if x \<in> set (subscriptions c) then strip ?i (deviceSubscriptions h x)
                         else deviceSubscriptions h x)"
    by (rule fold_drop_subscriber [OF D(4) [OF c]])
  also have "\<dots> = (\<lambda>x. strip ?i (deviceSubscriptions h x))"
  proof (rule ext)
    fix x
    show "(if x \<in> set (subscriptions c) then strip ?i (deviceSubscriptions h x)
           else deviceSubscriptions h x) = strip ?i (deviceSubscriptions h x)"
      using D(5) [OF c, of x] by (cases "deviceSubscriptions h x") (auto simp: strip_def)
  qed
  finally have ix: "\<And>x. deviceSubscriptions ?h x = strip ?i (deviceSubscriptions h x)"
    by simp
  show "dom (connectedClients ?h) = live - {?i}"
    by (simp add: cl D(1))
  show "(live - {?i}) \<inter> insert ?i gone = {}"
    using D(2) by blast
  show "\<And>d subs. deviceSubscriptions ?h d = Some subs \<Longrightarrow>
          subs \<noteq> [] \<and> distinct subs \<and> set subs \<subseteq> live - {?i}"
  proof -
    fix d subs assume "deviceSubscriptions ?h d = Some subs"
    then have "strip ?i (deviceSubscriptions h d) = Some subs" by (simp add: ix)
    from strip_Some [OF this] obtain subs0 where
      s0: "deviceSubscriptions h d = Some subs0"
      and alt: "(?i \<in> set subs0 \<and> subs = remove1 ?i subs0 \<and> subs \<noteq> [])
              \<or> (?i \<notin> set subs0 \<and> subs = subs0)"
      by blast
    from D(3) [OF s0] have p: "subs0 \<noteq> []" "distinct subs0" "set subs0 \<subseteq> live" by simp_all
    from alt show "subs \<noteq> [] \<and> distinct subs \<and> set subs \<subseteq> live - {?i}"
    proof
      assume a: "?i \<in> set subs0 \<and> subs = remove1 ?i subs0 \<and> subs \<noteq> []"
      then have "set subs = set subs0 - {?i}" using p(2) by simp
      with a p show ?thesis by auto
    next
      assume "?i \<notin> set subs0 \<and> subs = subs0"
      with p show ?thesis by auto
    qed
  qed
  show "\<And>i c'. connectedClients ?h i = Some c' \<Longrightarrow> distinct (subscriptions c')"
    using D(4) unfolding cl by (auto split: if_splits)
  show "\<And>i c' d. connectedClients ?h i = Some c' \<Longrightarrow>
          d \<in> set (subscriptions c') \<longleftrightarrow> (\<exists>subs. deviceSubscriptions ?h d = Some subs \<and> i \<in> set subs)"
  proof -
    fix i c' d assume "connectedClients ?h i = Some c'"
    then have ne: "i \<noteq> ?i" and c': "connectedClients h i = Some c'"
      by (auto simp: cl split: if_splits)
    have "(\<exists>subs. deviceSubscriptions h d = Some subs \<and> i \<in> set subs)
        \<longleftrightarrow> (\<exists>subs. strip ?i (deviceSubscriptions h d) = Some subs \<and> i \<in> set subs)"
    proof
      assume "\<exists>subs. deviceSubscriptions h d = Some subs \<and> i \<in> set subs"
      then obtain subs where "deviceSubscriptions h d = Some subs" "i \<in> set subs" by blast
      from strip_keeps [OF this ne] show "\<exists>subs. strip ?i (deviceSubscriptions h d) = Some subs \<and> i \<in> set subs" .
    next
      assume "\<exists>subs. strip ?i (deviceSubscriptions h d) = Some subs \<and> i \<in> set subs"
      then obtain subs where s: "strip ?i (deviceSubscriptions h d) = Some subs" and i: "i \<in> set subs"
        by blast
      from strip_Some [OF s] obtain subs0 where
        s0: "deviceSubscriptions h d = Some subs0"
        and alt: "(?i \<in> set subs0 \<and> subs = remove1 ?i subs0 \<and> subs \<noteq> [])
                \<or> (?i \<notin> set subs0 \<and> subs = subs0)"
        by blast
      from alt i have "i \<in> set subs0"
        using set_remove1_subset [of ?i subs0] by blast
      with s0 show "\<exists>subs. deviceSubscriptions h d = Some subs \<and> i \<in> set subs" by blast
    qed
    with D(5) [OF c', of d] show
      "d \<in> set (subscriptions c') \<longleftrightarrow> (\<exists>subs. deviceSubscriptions ?h d = Some subs \<and> i \<in> set subs)"
      by (simp add: ix)
  qed
qed

lemma hub_inv_subscribe:
  assumes inv: "hub_inv live gone h" and mem: "sock_id s \<in> live"
  shows "hub_inv live gone (handleDeviceSubscribe h s d)"
proof (cases "js_truthy d")
  case False
  with inv show ?thesis by (simp add: handleDeviceSubscribe_def hub_inv_emit)
next
  case tr: True
  note D = hub_invD [OF inv]
  let ?i = "sock_id s"
  define subs0 where "subs0 = (case deviceSubscriptions h d of None \<Rightarrow> [] | Some l \<Rightarrow> l)"
  show ?thesis
  proof (cases "?i \<in> set subs0")
    case True
    with tr inv show ?thesis by (simp add: handleDeviceSubscribe_def Let_def subs0_def [symmetric])
  next
    case nin: False
    from mem D(1) obtain c where c: "connectedClients h ?i = Some c" by blast
    have nd: "d \<notin> set (subscriptions c)"
      using D(5) [OF c, of d] nin by (auto simp: subs0_def split: option.splits)
    let ?h1 = "h\<lparr> deviceSubscriptions := (deviceSubscriptions h)(d \<mapsto> subs0 @ [?i]),
                  connectedClients := (connectedClients h)(?i \<mapsto>
                     c\<lparr> subscriptions := subscriptions c @ [d] \<rparr>) \<rparr>"
    have eq: "handleDeviceSubscribe h s d = emit_to s (DeviceSubscribed d) ?h1"
      using tr nin c nd by (simp add: handleDeviceSubscribe_def Let_def subs0_def [symmetric])
    have "distinct subs0 \<and> set subs0 \<subseteq> live"
    proof (cases "deviceSubscriptions h d")
      case None
      then show ?thesis by (simp add: subs0_def)
    next
      case (Some l)
      with D(3) [OF Some] show ?thesis by (simp add: subs0_def)
    qed
    then have p: "distinct subs0" "set subs0 \<subseteq> live" by simp_all
    have old_d: "\<And>j. (\<exists>l. deviceSubscriptions h d = Some l \<and> j \<in> set l) \<longleftrightarrow> j \<in> set subs0"
      by (cases "deviceSubscriptions h d") (simp_all add: subs0_def)
    have "hub_inv live gone ?h1"
    proof (rule hub_invI)
      show "dom (connectedClients ?h1) = live"
        using D(1) mem by auto
      show "live \<inter> gone = {}" by (rule D(2))
      show "\<And>x subs. deviceSubscriptions ?h1 x = Some subs \<Longrightarrow>
              subs \<noteq> [] \<and> distinct subs \<and> set subs \<subseteq> live"
      proof -
        fix x subs assume a: "deviceSubscriptions ?h1 x = Some subs"
        show "subs \<noteq> [] \<and> distinct subs \<and> set subs \<subseteq> live"
        proof (cases "x = d")
          case True
          with a have "subs = subs0 @ [?i]" by simp
          with p nin mem show ?thesis by simp
        next
          case False
          with a have "deviceSubscriptions h x = Some subs" by simp
          from D(3) [OF this] show ?thesis .
        qed
      qed
      show "\<And>i c'. connectedClients ?h1 i = Some c' \<Longrightarrow> distinct (subscriptions c')"
      proof -
        fix i c' assume a: "connectedClients ?h1 i = Some c'"
        show "distinct (subscriptions c')"
        proof (cases "i = ?i")
          case True
          with a have "subscriptions c' = subscriptions c @ [d]" by auto
          with D(4) [OF c] nd show ?thesis by simp
        next
          case False
          with a have "connectedClients h i = Some c'" by simp
          from D(4) [OF this] show ?thesis .
        qed
      qed
      show "\<And>i c' x. connectedClients ?h1 i = Some c' \<Longrightarrow>
              x \<in> set (subscriptions c') \<longleftrightarrow>
                (\<exists>subs. deviceSubscriptions ?h1 x = Some subs \<and> i \<in> set subs)"
      proof -
        fix i c' x assume a: "connectedClients ?h1 i = Some c'"
        have old: "\<And>c0. connectedClients h i = Some c0 \<Longrightarrow>
                x \<in> set (subscriptions c0) \<longleftrightarrow>
                  (\<exists>subs. deviceSubscriptions h x = Some subs \<and> i \<in> set subs)"
          by (rule D(5))
        show "x \<in> set (subscriptions c') \<longleftrightarrow>
                (\<exists>subs. deviceSubscriptions ?h1 x = Some subs \<and> i \<in> set subs)"
        proof (cases "i = ?i")
          case i: True
          with a have s': "subscriptions c' = subscriptions c @ [d]" by auto
          show ?thesis
          proof (cases "x = d")
            case True
            with i show ?thesis by (simp add: s')
          next
            case False
            with i old [OF c [unfolded i [symmetric]]] show ?thesis by (simp add: s')
          qed
        next
          case i: False
          with a have c0: "connectedClients h i = Some c'" by simp
          show ?thesis
          proof (cases "x = d")
            case True
            with i old [OF c0] old_d [of i] show ?thesis by simp
          next
            case False
            with old [OF c0] show ?thesis by simp
          qed
        qed
      qed
    qed
    then show ?thesis by (simp add: eq hub_inv_emit)
  qed
qed

lemma unsub_eq:
  assumes tr: "js_truthy d" and Some: "deviceSubscriptions h d = Some subs"
    and isin: "sock_id s \<in> set subs" and c: "connectedClients h (sock_id s) = Some c"
  shows "handleDeviceUnsubscribe h s d =
     emit_to s (DeviceUnsubscribed d)
       (h\<lparr> deviceSubscriptions :=
              (if remove1 (sock_id s) subs = [] then (deviceSubscriptions h)(d := None)
               else (deviceSubscriptions h)(d \<mapsto> remove1 (sock_id s) subs)),
            connectedClients := (connectedClients h)(sock_id s \<mapsto>
               c\<lparr> subscriptions := remove1 d (subscriptions c) \<rparr>) \<rparr>)"
proof (cases "remove1 (sock_id s) subs = []")
  case True
  then show ?thesis
    using tr Some isin c
    by (simp add: handleDeviceUnsubscribe_def emit_to_def)
next
  case False
  then show ?thesis
    using tr Some isin c
    by (simp add: handleDeviceUnsubscribe_def emit_to_def)
qed

lemma hub_inv_unsubscribe:
  assumes inv: "hub_inv live gone h" and mem: "sock_id s \<in> live"
  shows "hub_inv live gone (handleDeviceUnsubscribe h s d)"
proof (cases "js_truthy d")
  case False
  with inv show ?thesis by (simp add: handleDeviceUnsubscribe_def hub_inv_emit)
next
  case tr: True
  note D = hub_invD [OF inv]
  let ?i = "sock_id s"
  show ?thesis
  proof (cases "deviceSubscriptions h d")
    case None
    with tr inv show ?thesis by (simp add: handleDeviceUnsubscribe_def)
  next
    case (Some subs)
    show ?thesis
    proof (cases "?i \<in> set subs")
      case False
      with tr Some inv show ?thesis by (simp add: handleDeviceUnsubscribe_def)
    next
      case isin: True
      from mem D(1) obtain c where c: "connectedClients h ?i = Some c" by blast
      from D(3) [OF Some] have p: "distinct subs" "set subs \<subseteq> live" by simp_all
      have rs: "set (remove1 ?i subs) = set subs - {?i}" using p(1) by simp
      have rc: "set (remove1 d (subscriptions c)) = set (subscriptions c) - {d}"
        using D(4) [OF c] by simp
      define ix' where "ix' = (if remove1 ?i subs = [] then (deviceSubscriptions h)(d := None)
                 else (deviceSubscriptions h)(d \<mapsto> remove1 ?i subs))"
      define cl' where "cl' = (connectedClients h)(?i \<mapsto> c\<lparr> subscriptions := remove1 d (subscriptions c) \<rparr>)"
      define h1 where "h1 = h\<lparr> deviceSubscriptions := ix', connectedClients := cl' \<rparr>"
      have eq: "handleDeviceUnsubscribe h s d = emit_to s (DeviceUnsubscribed d) h1"
        unfolding h1_def ix'_def cl'_def by (rule unsub_eq [OF tr Some isin c])
      have ix1: "deviceSubscriptions h1 = ix'" and cl1: "connectedClients h1 = cl'"
        by (simp_all add: h1_def)
      have ixd0: "ix' d = (if remove1 ?i subs = [] then None else Some (remove1 ?i subs))"
        by (simp add: ix'_def)
      have ixo: "\<And>x. x \<noteq> d \<Longrightarrow> ix' x = deviceSubscriptions h x"
        by (simp add: ix'_def)
      have ixd: "\<And>j. (\<exists>l. ix' d = Some l \<and> j \<in> set l) \<longleftrightarrow> (j \<in> set subs \<and> j \<noteq> ?i)"
      proof -
        fix j
        show "(\<exists>l. ix' d = Some l \<and> j \<in> set l) \<longleftrightarrow> (j \<in> set subs \<and> j \<noteq> ?i)"
        proof (cases "remove1 ?i subs = []")
          case True
          then have "set subs - {?i} = {}" using rs by simp
          then have "\<not> (j \<in> set subs \<and> j \<noteq> ?i)" by blast
          with True show ?thesis by (simp add: ixd0)
        next
          case False
          have "j \<in> set (remove1 ?i subs) \<longleftrightarrow> (j \<in> set subs \<and> j \<noteq> ?i)"
            by (simp only: rs) blast
          with False show ?thesis by (simp add: ixd0)
        qed
      qed
      have clo: "\<And>j. j \<noteq> ?i \<Longrightarrow> cl' j = connectedClients h j"
        and cli: "cl' ?i = Some (c\<lparr> subscriptions := remove1 d (subscriptions c) \<rparr>)"
        by (simp_all add: cl'_def)
      have oldd: "\<And>j. (\<exists>l. deviceSubscriptions h d = Some l \<and> j \<in> set l) \<longleftrightarrow> j \<in> set subs"
        by (simp add: Some)
      have "hub_inv live gone h1"
      proof (rule hub_invI)
        show "dom (connectedClients h1) = live"
          using D(1) mem by (simp add: cl1 cl'_def insert_absorb)
        show "live \<inter> gone = {}" by (rule D(2))
        show "\<And>x l. deviceSubscriptions h1 x = Some l \<Longrightarrow>
                l \<noteq> [] \<and> distinct l \<and> set l \<subseteq> live"
        proof -
          fix x l assume a: "deviceSubscriptions h1 x = Some l"
          show "l \<noteq> [] \<and> distinct l \<and> set l \<subseteq> live"
          proof (cases "x = d")
            case True
            with a have "ix' d = Some l" by (simp add: ix1)
            then have l: "remove1 ?i subs \<noteq> []" "l = remove1 ?i subs"
              by (simp_all add: ixd0 split: if_splits)
            have "set l \<subseteq> live" using p(2) rs l(2) by blast
            with l p(1) show ?thesis by simp
          next
            case False
            with a have "deviceSubscriptions h x = Some l" by (simp add: ix1 ixo)
            from D(3) [OF this] show ?thesis .
          qed
        qed
        show "\<And>i c'. connectedClients h1 i = Some c' \<Longrightarrow> distinct (subscriptions c')"
        proof -
          fix i c' assume a: "connectedClients h1 i = Some c'"
          show "distinct (subscriptions c')"
          proof (cases "i = ?i")
            case True
            with a cli have "c' = c\<lparr> subscriptions := remove1 d (subscriptions c) \<rparr>"
              by (simp add: cl1)
            with D(4) [OF c] show ?thesis by simp
          next
            case False
            with a have "connectedClients h i = Some c'" by (simp add: cl1 clo)
            from D(4) [OF this] show ?thesis .
          qed
        qed
        show "\<And>i c' x. connectedClients h1 i = Some c' \<Longrightarrow>
                x \<in> set (subscriptions c') \<longleftrightarrow>
                  (\<exists>l. deviceSubscriptions h1 x = Some l \<and> i \<in> set l)"
        proof -
          fix i c' x assume a: "connectedClients h1 i = Some c'"
          show "x \<in> set (subscriptions c') \<longleftrightarrow>
                  (\<exists>l. deviceSubscriptions h1 x = Some l \<and> i \<in> set l)"
          proof (cases "i = ?i")
            case i: True
            with a cli have "c' = c\<lparr> subscriptions := remove1 d (subscriptions c) \<rparr>"
              by (simp add: cl1)
            then have s': "set (subscriptions c') = set (subscriptions c) - {d}"
              by (simp add: rc)
            show ?thesis
            proof (cases "x = d")
              case True
              have "\<not> (\<exists>l. ix' d = Some l \<and> ?i \<in> set l)"
                using ixd [of ?i] by simp
              with True i show ?thesis by (simp add: s' ix1)
            next
              case False
              with D(5) [OF c, of x] i show ?thesis
                by (simp add: s' ix1 ixo)
            qed
          next
            case i: False
            with a have c0: "connectedClients h i = Some c'" by (simp add: cl1 clo)
            show ?thesis
            proof (cases "x = d")
              case True
              have "(\<exists>l. ix' d = Some l \<and> i \<in> set l) \<longleftrightarrow> i \<in> set subs"
                using ixd [of i] i by simp
              with True D(5) [OF c0, of d] oldd [of i] show ?thesis
                by (simp add: ix1)
            next
              case False
              with D(5) [OF c0, of x] show ?thesis
                by (simp add: ix1 ixo)
            qed
          qed
        qed
      qed
      then show ?thesis by (simp add: eq hub_inv_emit)
    qed
  qed
qed

lemma hub_inv_run:
  "hub_inv live gone h \<Longrightarrow> lifecycle live gone cs \<Longrightarrow>
     \<exists>live' gone'. hub_inv live' gone' (run_hub cs h) \<and> gone \<subseteq> gone'
        \<and> (\<forall>s. Disconnection s \<in> set cs \<longrightarrow> sock_id s \<in> gone')"
proof (induction cs arbitrary: live gone h)
  case Nil
  then show ?case by (auto simp: run_hub_def)
next
  case (Cons c cs)
  have step: "\<And>live1 gone1. hub_inv live1 gone1 (hub_step h c) \<Longrightarrow> lifecycle live1 gone1 cs \<Longrightarrow>
      gone \<subseteq> gone1 \<Longrightarrow> (\<forall>s. c = Disconnection s \<longrightarrow> sock_id s \<in> gone1) \<Longrightarrow> ?case"
  proof -
    fix live1 gone1
    assume a: "hub_inv live1 gone1 (hub_step h c)" "lifecycle live1 gone1 cs"
      and g: "gone \<subseteq> gone1" and d: "\<forall>s. c = Disconnection s \<longrightarrow> sock_id s \<in> gone1"
    from Cons.IH [OF a] obtain live' gone' where
      r: "hub_inv live' gone' (run_hub cs (hub_step h c))" "gone1 \<subseteq> gone'"
         "\<forall>s. Disconnection s \<in> set cs \<longrightarrow> sock_id s \<in> gone'"
      by blast
    have run: "run_hub (c # cs) h = run_hub cs (hub_step h c)"
      by (simp add: run_hub_def)
    have "gone \<subseteq> gone'" using g r(2) by blast
    moreover have "\<forall>s. Disconnection s \<in> set (c # cs) \<longrightarrow> sock_id s \<in> gone'"
      using d r(2,3) by auto
    ultimately show ?case using r(1) unfolding run by blast
  qed
  show ?case
  proof (cases c)
    case (Connection s t)
    with Cons.prems have f: "sock_id s \<notin> live" "sock_id s \<notin> gone"
      and l: "lifecycle (insert (sock_id s) live) gone cs" by simp_all
    from hub_inv_connection [OF Cons.prems(1) f, of t]
    have "hub_inv (insert (sock_id s) live) gone (hub_step h c)" by (simp add: Connection)
    from step [OF this l] show ?thesis by (simp add: Connection)
  next
    case (Subscribe s d)
    with Cons.prems have m: "sock_id s \<in> live" and l: "lifecycle live gone cs" by simp_all
    from hub_inv_subscribe [OF Cons.prems(1) m, of d]
    have "hub_inv live gone (hub_step h c)" by (simp add: Subscribe)
    from step [OF this l] show ?thesis by (simp add: Subscribe)
  next
    case (Unsubscribe s d)
    with Cons.prems have m: "sock_id s \<in> live" and l: "lifecycle live gone cs" by simp_all
    from hub_inv_unsubscribe [OF Cons.prems(1) m, of d]
    have "hub_inv live gone (hub_step h c)" by (simp add: Unsubscribe)
    from step [OF this l] show ?thesis by (simp add: Unsubscribe)
  next
    case (Disconnection s)
    with Cons.prems have m: "sock_id s \<in> live"
      and l: "lifecycle (live - {sock_id s}) (insert (sock_id s) gone) cs" by simp_all
    from hub_inv_disconnection [OF Cons.prems(1) m]
    have "hub_inv (live - {sock_id s}) (insert (sock_id s) gone) (hub_step h c)"
      by (simp add: Disconnection)
    from step [OF this l] show ?thesis by (auto simp: Disconnection)
  qed
qed

text \<open>
  C10, as amended. After any sequence of the four handlers, started from the state the
  constructor builds (with or without a server), every device id present in the index
  maps to a non-empty list of socket ids without duplicates. When the sequence follows
  the life of sockets under the socket server (each socket id connected once, its
  events handled only between its connection and its disconnection), a socket id whose
  disconnect handler has run has no entry among the connected clients and appears in
  no subscriber list.
\<close>

theorem hub_invariant:
  "(\<forall>d subs. deviceSubscriptions (run_hub cs (new_hub\<lparr> io := srv \<rparr>)) d = Some subs \<longrightarrow>
      subs \<noteq> [] \<and> distinct subs)
 \<and> (lifecycle {} {} cs \<longrightarrow>
      (\<forall>s. Disconnection s \<in> set cs \<longrightarrow>
         connectedClients (run_hub cs (new_hub\<lparr> io := srv \<rparr>)) (sock_id s) = None
       \<and> (\<forall>d subs. deviceSubscriptions (run_hub cs (new_hub\<lparr> io := srv \<rparr>)) d = Some subs \<longrightarrow>
             sock_id s \<notin> set subs)))"
proof (intro conjI impI allI)
  let ?h = "run_hub cs (new_hub\<lparr> io := srv \<rparr>)"
  have "index_ok (deviceSubscriptions (new_hub\<lparr> io := srv \<rparr>))"
    by (simp add: new_hub_def index_ok_empty)
  from index_ok_run [OF this, of cs]
  have ok: "index_ok (deviceSubscriptions ?h)" .
  fix d subs assume "deviceSubscriptions ?h d = Some subs"
  with ok show "subs \<noteq> []" "distinct subs" unfolding index_ok_def by blast+
next
  let ?h = "run_hub cs (new_hub\<lparr> io := srv \<rparr>)"
  fix s
  assume l: "lifecycle {} {} cs" and dc: "Disconnection s \<in> set cs"
  from hub_inv_run [OF hub_inv_new l, of srv] obtain live' gone' where
    inv: "hub_inv live' gone' ?h" and g: "\<forall>s. Disconnection s \<in> set cs \<longrightarrow> sock_id s \<in> gone'"
    by blast
  note D = hub_invD [OF inv]
  from g dc have gone: "sock_id s \<in> gone'" by blast
  with D(2) have nl: "sock_id s \<notin> live'" by blast
  with D(1) show "connectedClients ?h (sock_id s) = None" by blast
  fix d subs assume "deviceSubscriptions ?h d = Some subs"
  from D(3) [OF this] nl show "sock_id s \<notin> set subs" by blast
qed

lemma sock_ids: "sock_id sock_a = ''a''" "sock_id sock_b = ''b''" "sock_id sock_c = ''c''"
  by (simp_all add: sock_a_def sock_b_def sock_c_def)

theorem hub_invariant_witness:
  "lifecycle {} {} subscribe_then_leave
 \<and> deviceSubscriptions (run_hub subscribe_then_leave (new_hub\<lparr> io := None \<rparr>)) (JNum 7) = Some [''b'']
 \<and> connectedClients (run_hub subscribe_then_leave (new_hub\<lparr> io := None \<rparr>)) ''a'' = None"
proof -
  have l: "lifecycle {} {} subscribe_then_leave"
    by (simp add: subscribe_then_leave_def sock_ids)
  have m: "Disconnection sock_a \<in> set subscribe_then_leave"
    by (simp add: subscribe_then_leave_def)
  have i: "deviceSubscriptions (run_hub subscribe_then_leave (new_hub\<lparr> io := None \<rparr>)) (JNum 7)
             = Some [''b'']"
    by (simp add: subscribe_then_leave_def run_hub_def new_hub_def handleConnection_def emit_to_def
          handleDeviceSubscribe_def handleDisconnection_def drop_subscriber_def js_truthy_def
          sock_ids Let_def)
  from hub_invariant [of subscribe_then_leave None] l m
  have "connectedClients (run_hub subscribe_then_leave (new_hub\<lparr> io := None \<rparr>)) (sock_id sock_a) = None"
    by blast
  with l i show ?thesis by (simp add: sock_ids)
qed

text \<open>
  C10 as stated fails for sequences outside that life: a subscribe handled for a
  socket after its disconnect handler puts the id back into a subscriber list, since
  \<open>handleDeviceSubscribe\<close> fills the index before it looks for the client.
\<close>

theorem late_subscribe_stays:
  "deviceSubscriptions
     (run_hub [Connection sock_a 1, Disconnection sock_a, Subscribe sock_a (JNum 7)] new_hub)
     (JNum 7) = Some [''a'']
 \<and> connectedClients
     (run_hub [Connection sock_a 1, Disconnection sock_a, Subscribe sock_a (JNum 7)] new_hub)
     ''a'' = None"
  by (simp add: run_hub_def new_hub_def handleConnection_def emit_to_def
        handleDeviceSubscribe_def handleDisconnection_def js_truthy_def sock_ids Let_def)

section \<open>C8: ticks and runs of a scheduled action\<close>





section \<open>C3: mutations and the cache\<close>









































end
